theory Spec2Isabelle
  imports Main "HOL-Library.Word"
begin

section \<open>Data model of the PDF bot\<close>

text \<open>
  The bot (\<^verbatim>\<open>bot.py\<close>) has three event handlers that matter here: \<^verbatim>\<open>handle_pdf\<close>
  (a document was uploaded), \<^verbatim>\<open>download_word_callback\<close> (the "download" button) and
  \<^verbatim>\<open>start_over_callback\<close> (the "start over" button). Each handler is modelled as a
  function from the state of one conversation to the new state.

  A Python \<^verbatim>\<open>str\<close> is a sequence of Unicode code points, so it is a list of naturals
  here; \<^verbatim>\<open>len\<close> and slicing count code points. \<open>lit\<close> turns an ASCII literal into
  such a sequence. A \<^verbatim>\<open>bytes\<close> value is a list of 8-bit words.
\<close>

type_synonym codepoint = nat
type_synonym pystr = "codepoint list"
type_synonym bytes = "8 word list"

definition lit :: "string \<Rightarrow> pystr" where
  "lit s = map of_char s"

abbreviation newline :: codepoint where "newline \<equiv> 10"
abbreviation hyphen :: codepoint where "hyphen \<equiv> 45"
abbreviation space :: codepoint where "space \<equiv> 32"

text \<open>
  What the handlers use but the repository does not define is a parameter of the model:
  \<^item> \<open>uni_word\<close> and \<open>uni_space\<close>: the Unicode tables behind the regular expression
    class \<^verbatim>\<open>\w\<close> and behind \<^verbatim>\<open>str.strip\<close>, for code points from 128 on (the ASCII part is
    written out below);
  \<^item> \<open>py_hash\<close>: Python's built-in \<^verbatim>\<open>hash\<close> on \<^verbatim>\<open>bytes\<close>, a function into the 64-bit
    \<^verbatim>\<open>Py_hash_t\<close> that is keyed anew for each process;
  \<^item> \<open>picture_ok\<close>: whether \<^verbatim>\<open>doc.add_picture\<close> accepts a file with the given content
    and extension (it raises otherwise);
  \<^item> \<open>uni_xml\<close>: which code points from 128 on the XML library behind the document
    writer accepts as text (the ASCII part is written out below).
\<close>

record env =
  uni_word :: "codepoint \<Rightarrow> bool"
  uni_space :: "codepoint \<Rightarrow> bool"
  py_hash :: "bytes \<Rightarrow> 64 word"
  picture_ok :: "bytes \<Rightarrow> pystr \<Rightarrow> bool"
  uni_xml :: "codepoint \<Rightarrow> bool"

text \<open>
  A content block is the tuple \<^verbatim>\<open>("text", page_text)\<close> or
  \<^verbatim>\<open>("image", (img_bytes, ext))\<close> of the source.
\<close>

datatype block = Text pystr | Image bytes pystr

text \<open>
  The uploaded PDF as the two readers show it: one entry per page of \<^verbatim>\<open>pdf_doc\<close>, with
  what \<^verbatim>\<open>reader.pages[i].extract_text()\<close> does for that index (it raises, or returns a
  string or \<^verbatim>\<open>None\<close>) and the dictionaries \<^verbatim>\<open>extract_image\<close> gives for the entries
  of \<^verbatim>\<open>get_images(full=True)\<close>, in their order. Of the failures of the libraries
  outside the two \<^verbatim>\<open>try\<close> blocks of the source, the refusal of a text by
  \<^verbatim>\<open>add_paragraph\<close> is modelled (see the assembly loop below); a file that neither
  reader opens, a broken image reference and a transport error are not.
\<close>

datatype text_result = Raises | Returns "pystr option"

record img_dict =
  image_data :: bytes
  ext :: pystr

record page =
  text_result :: text_result
  page_images :: "img_dict list"

record upload =
  mime_type :: pystr
  file_name :: pystr
  pdf_pages :: "page list"

text \<open>
  A document of the writer library is its list of paragraphs; a paragraph is given by
  the text that \<^verbatim>\<open>paragraph.text\<close> reads back from it and by the picture in it, if any.
  \<^verbatim>\<open>add_picture\<close> appends an empty paragraph and then puts the picture into it, so a
  picture the library rejects leaves the empty paragraph behind.
\<close>

datatype para = Paragraph pystr "bytes option"

type_synonym document = "para list"

datatype file_content = PdfFile "page list" | DocxFile document

record temp_file =
  suffix :: pystr
  content :: bytes

text \<open>The calls a handler makes on the chat transport, in the order it makes them.\<close>

type_synonym keyboard = "(pystr \<times> pystr) list list"

datatype action =
    ReplyText pystr
  | SendMessage pystr "keyboard option"
  | SendPhoto bytes
  | SendDocument file_content pystr
  | AnswerQuery
  | EditMessageText pystr
  | EditReplyMarkup "keyboard option"

text \<open>
  The state of one conversation: \<^verbatim>\<open>context.user_data\<close>, the transport calls made so far
  (oldest first), the files written under a fixed name, and the temporary files that
  exist (oldest first).
\<close>

record state =
  user_data :: "pystr \<rightharpoonup> block list"
  outbox :: "action list"
  files :: "pystr \<rightharpoonup> file_content"
  temp_files :: "temp_file list"

section \<open>The fixed texts of the source\<close>

text \<open>The processing notice sent first by \<^verbatim>\<open>handle_pdf\<close>.\<close>

definition msg_processing :: pystr where
  "msg_processing = [9203, 32, 1054, 1073, 1088, 1072, 1073, 1072, 1090, 1099, 1074, 1072,
     1102, 32, 1092, 1072, 1081, 1083, 44, 32, 1101, 1090, 1086, 32, 1084, 1086, 1078, 1077,
     1090, 32, 1079, 1072, 1085, 1103, 1090, 1100, 32, 1085, 1077, 1089, 1082, 1086, 1083,
     1100, 1082, 1086, 32, 1089, 1077, 1082, 1091, 1085, 1076, 46, 46, 46]"

text \<open>The rejection of an upload that is not a PDF ("this is not a PDF").\<close>

definition msg_not_pdf :: pystr where
  "msg_not_pdf = [1069, 1090, 1086, 32, 1085, 1077, 32, 80, 68, 70, 46]"

text \<open>The prompt after delivery ("your text is ready, choose an action below").\<close>

definition msg_ready :: pystr where
  "msg_ready = [1042, 1072, 1096, 32, 1090, 1077, 1082, 1089, 1090, 32, 1075, 1086, 1090,
     1086, 1074, 33, 32, 1042, 1099, 1073, 1077, 1088, 1080, 1090, 1077, 32, 1076, 1077,
     1081, 1089, 1090, 1074, 1080, 1077, 32, 1085, 1080, 1078, 1077, 58]"

text \<open>The answer to a download with nothing stored ("no data to generate Word").\<close>

definition msg_no_data :: pystr where
  "msg_no_data = [1053, 1077, 1090, 32, 1076, 1072, 1085, 1085, 1099, 1093, 32, 1076, 1083,
     1103, 32, 1075, 1077, 1085, 1077, 1088, 1072, 1094, 1080, 1080, 32, 87, 111, 114, 100,
     46]"

text \<open>The invitation after "start over" ("send a new PDF file here").\<close>

definition msg_send_new :: pystr where
  "msg_send_new = [128260, 32, 1055, 1088, 1080, 1096, 1083, 1080, 1090, 1077, 32, 1085,
     1086, 1074, 1099, 1081, 32, 80, 68, 70, 45, 1092, 1072, 1081, 1083, 32, 1089, 1102,
     1076, 1072, 46]"

definition label_download :: pystr where
  "label_download = [128229, 32, 1057, 1082, 1072, 1095, 1072, 1090, 1100, 32, 1074, 32, 87,
     111, 114, 100]"

definition label_start_over :: pystr where
  "label_start_over = [128260, 32, 1047, 1072, 1075, 1088, 1091, 1079, 1080, 1090, 1100, 32,
     1077, 1097, 1105, 32, 80, 68, 70, 45, 1092, 1072, 1081, 1083]"

definition keyboard_after_upload :: keyboard where
  "keyboard_after_upload =
     [[(label_download, lit ''download_word'')], [(label_start_over, lit ''start_over'')]]"

definition keyboard_after_download :: keyboard where
  "keyboard_after_download = [[(label_start_over, lit ''start_over'')]]"

definition blocks_key :: pystr where
  "blocks_key = lit ''last_pdf_blocks''"

definition out_path :: pystr where
  "out_path = lit ''/tmp/output.docx''"

section \<open>Text normalization\<close>

text \<open>
  \<^verbatim>\<open>\w\<close> of a \<^verbatim>\<open>str\<close> pattern: letters, digits and the underscore in ASCII, the Unicode
  table beyond. \<^verbatim>\<open>str.strip()\<close> removes the characters of \<^verbatim>\<open>str.isspace\<close>: in ASCII
  the code points 9 to 13 and 28 to 32.
\<close>

definition word_char :: "env \<Rightarrow> codepoint \<Rightarrow> bool" where
  "word_char e c =
     (if c < 128
      then (48 \<le> c \<and> c \<le> 57) \<or> (65 \<le> c \<and> c \<le> 90) \<or> c = 95 \<or> (97 \<le> c \<and> c \<le> 122)
      else uni_word e c)"

definition space_char :: "env \<Rightarrow> codepoint \<Rightarrow> bool" where
  "space_char e c =
     (if c < 128
      then (9 \<le> c \<and> c \<le> 13) \<or> (28 \<le> c \<and> c \<le> 32)
      else uni_space e c)"

text \<open>
  \<^verbatim>\<open>re.sub(r"(\w)-\n(\w)", r"\1\2", page_text)\<close>: the text is scanned from the left; a
  match of the four characters is replaced by its two word characters and the scan goes
  on behind the match, so matches do not overlap.
\<close>

fun join_hyphenated :: "env \<Rightarrow> pystr \<Rightarrow> pystr" where
  "join_hyphenated e (a # h # n # b # rest) =
     (if word_char e a \<and> h = hyphen \<and> n = newline \<and> word_char e b
      then a # b # join_hyphenated e rest
      else a # join_hyphenated e (h # n # b # rest))"
| "join_hyphenated e s = s"

text \<open>\<^verbatim>\<open>page_text.replace("\n", " ")\<close>.\<close>

definition replace_newlines :: "pystr \<Rightarrow> pystr" where
  "replace_newlines s = map (\<lambda>c. if c = newline then space else c) s"

text \<open>
  \<^verbatim>\<open>re.sub(r" {2,}", " ", page_text)\<close>: the quantifier is greedy, so a match is a whole
  run of two or more spaces, replaced by one space.
\<close>

function collapse_spaces :: "pystr \<Rightarrow> pystr" where
  "collapse_spaces (a # b # rest) =
     (if a = space \<and> b = space
      then space # collapse_spaces (dropWhile (\<lambda>c. c = space) rest)
      else a # collapse_spaces (b # rest))"
| "collapse_spaces [a] = [a]"
| "collapse_spaces [] = []"
  by pat_completeness auto
termination
  by (relation "measure length")
    (auto simp: less_Suc_eq_le intro: le_trans [OF length_dropWhile_le])

definition strip :: "env \<Rightarrow> pystr \<Rightarrow> pystr" where
  "strip e s = rev (dropWhile (space_char e) (rev (dropWhile (space_char e) s)))"

definition normalize_text :: "env \<Rightarrow> pystr \<Rightarrow> pystr" where
  "normalize_text e s = strip e (collapse_spaces (replace_newlines (join_hyphenated e s)))"

text \<open>
  The \<^verbatim>\<open>try\<close> block of \<^verbatim>\<open>handle_pdf\<close>: \<^verbatim>\<open>page_text\<close> starts empty and stays so when
  \<^verbatim>\<open>extract_text\<close> raises; \<^verbatim>\<open>extract_text() or ""\<close> turns \<^verbatim>\<open>None\<close> into the empty
  string.
\<close>

definition page_text :: "env \<Rightarrow> page \<Rightarrow> pystr" where
  "page_text e p =
     (case text_result p of
        Raises \<Rightarrow> []
      | Returns r \<Rightarrow> normalize_text e (case r of None \<Rightarrow> [] | Some s \<Rightarrow> s))"

section \<open>Extraction\<close>

text \<open>
  The loops of \<^verbatim>\<open>handle_pdf\<close> over the pages and over the images of a page. The loop
  state is the pair of \<^verbatim>\<open>docx_blocks\<close> and \<^verbatim>\<open>sent_hashes\<close>; both start empty in every
  call of the handler.
\<close>

type_synonym extraction = "block list \<times> 64 word set"

definition image_step :: "env \<Rightarrow> extraction \<Rightarrow> img_dict \<Rightarrow> extraction" where
  "image_step e st img =
     (let (docx_blocks, sent_hashes) = st;
          img_hash = py_hash e (image_data img)
      in if img_hash \<notin> sent_hashes
         then (docx_blocks @ [Image (image_data img) (ext img)], insert img_hash sent_hashes)
         else (docx_blocks, sent_hashes))"

definition page_step :: "env \<Rightarrow> extraction \<Rightarrow> page \<Rightarrow> extraction" where
  "page_step e st p =
     (let (docx_blocks, sent_hashes) = st;
          t = page_text e p;
          docx_blocks = (if t \<noteq> [] then docx_blocks @ [Text t] else docx_blocks)
      in foldl (image_step e) (docx_blocks, sent_hashes) (page_images p))"

definition extract_blocks :: "env \<Rightarrow> page list \<Rightarrow> block list" where
  "extract_blocks e pages = fst (foldl (page_step e) ([], {}) pages)"

section \<open>Delivery\<close>

text \<open>
  \<^verbatim>\<open>range(0, n, k)\<close> for a positive step, and the slice \<^verbatim>\<open>s[i:j]\<close> for
  \<^verbatim>\<open>0 <= i <= j\<close> (a slice that reaches past the end is cut, it does not raise).
\<close>

definition range_step :: "nat \<Rightarrow> nat \<Rightarrow> nat list" where
  "range_step n k = map (\<lambda>j. j * k) [0..<(n + k - 1) div k]"

definition slice :: "'a list \<Rightarrow> nat \<Rightarrow> nat \<Rightarrow> 'a list" where
  "slice s i j = take (j - i) (drop i s)"

definition text_chunks :: "pystr \<Rightarrow> pystr list" where
  "text_chunks s = map (\<lambda>i. slice s i (i + 4096)) (range_step (length s) 4096)"

fun deliver_block :: "block \<Rightarrow> action list" where
  "deliver_block (Text block_val) = map (\<lambda>c. SendMessage c None) (text_chunks block_val)"
| "deliver_block (Image img_bytes x) = [SendPhoto img_bytes]"

section \<open>The handlers\<close>

definition send :: "action list \<Rightarrow> state \<Rightarrow> state" where
  "send as s = s\<lparr>outbox := outbox s @ as\<rparr>"

definition handle_pdf :: "env \<Rightarrow> upload \<Rightarrow> state \<Rightarrow> state" where
  "handle_pdf e up s =
     (let s = send [ReplyText msg_processing] s
      in if mime_type up \<noteq> lit ''application/pdf''
         then send [SendMessage msg_not_pdf None] s
         else
           let file_path = lit ''/tmp/'' @ file_name up;
               s = s\<lparr>files := (files s)(file_path \<mapsto> PdfFile (pdf_pages up))\<rparr>;
               docx_blocks = extract_blocks e (pdf_pages up);
               s = s\<lparr>user_data := (user_data s)(blocks_key \<mapsto> docx_blocks)\<rparr>;
               s = send (concat (map deliver_block docx_blocks)) s
           in send [SendMessage msg_ready (Some keyboard_after_upload)] s)"

text \<open>
  \<^verbatim>\<open>doc.add_paragraph(block_val)\<close> stands outside any \<^verbatim>\<open>try\<close>. The writer turns a tab
  into a tab element and a line feed or carriage return into a line break, and hands
  every other character to the XML library as text. That library raises
  \<^verbatim>\<open>ValueError\<close> on a character XML cannot hold: in ASCII the control characters other
  than tab, line feed and carriage return. \<^verbatim>\<open>paragraph.text\<close> reads a tab back as a
  tab and a line break as a line feed, so a carriage return comes back as a line feed.
\<close>

datatype py_error = ValueError

definition xml_char :: "env \<Rightarrow> codepoint \<Rightarrow> bool" where
  "xml_char e c =
     (if c < 128 then c = 9 \<or> c = 10 \<or> c = 13 \<or> 32 \<le> c else uni_xml e c)"

definition xml_compatible :: "env \<Rightarrow> pystr \<Rightarrow> bool" where
  "xml_compatible e t = list_all (xml_char e) t"

definition read_back :: "pystr \<Rightarrow> pystr" where
  "read_back t = map (\<lambda>c. if c = 13 then newline else c) t"

text \<open>
  One round of the assembly loop of \<^verbatim>\<open>download_word_callback\<close>. An image is written to
  a temporary file made with \<^verbatim>\<open>delete=False\<close>; leaving the \<^verbatim>\<open>with\<close> block closes the
  file and, with that flag, does not remove it, and the handler has no call that removes
  a file. The \<^verbatim>\<open>except\<close> branch logs a warning and goes on. The result is the error
  that left the round, or the document, together with the temporary files that exist.
\<close>

definition add_block ::
  "env \<Rightarrow> document \<times> temp_file list \<Rightarrow> block \<Rightarrow> (py_error + document) \<times> temp_file list" where
  "add_block e st b =
     (let (doc, tmps) = st
      in case b of
           Text block_val \<Rightarrow>
             if xml_compatible e block_val
             then (Inr (doc @ [Paragraph (read_back block_val) None]), tmps)
             else (Inl ValueError, tmps)
         | Image img_bytes x \<Rightarrow>
             let tmps = tmps @ [\<lparr>suffix = lit ''.'' @ x, content = img_bytes\<rparr>]
             in (Inr (doc @
                   [Paragraph [] (if picture_ok e img_bytes x then Some img_bytes else None)]),
                 tmps))"

text \<open>The loop over the stored blocks: an error ends it.\<close>

fun assemble_loop ::
  "env \<Rightarrow> document \<times> temp_file list \<Rightarrow> block list \<Rightarrow> (py_error + document) \<times> temp_file list" where
  "assemble_loop e (doc, tmps) [] = (Inr doc, tmps)"
| "assemble_loop e (doc, tmps) (b # bs) =
     (case add_block e (doc, tmps) b of
        (Inl err, tmps) \<Rightarrow> (Inl err, tmps)
      | (Inr doc, tmps) \<Rightarrow> assemble_loop e (doc, tmps) bs)"

definition assemble ::
  "env \<Rightarrow> block list \<Rightarrow> temp_file list \<Rightarrow> (py_error + document) \<times> temp_file list" where
  "assemble e docx_blocks tmps = assemble_loop e ([], tmps) docx_blocks"

text \<open>\<^verbatim>\<open>context.user_data.get('last_pdf_blocks', [])\<close>.\<close>

definition stored_blocks :: "state \<Rightarrow> block list" where
  "stored_blocks s = (case user_data s blocks_key of None \<Rightarrow> [] | Some bs \<Rightarrow> bs)"

text \<open>
  The download handler. When the assembly raises, the exception leaves the handler:
  the button press is answered and the temporary files written so far exist, nothing
  is saved or sent.
\<close>

definition download_word_callback :: "env \<Rightarrow> state \<Rightarrow> state" where
  "download_word_callback e s =
     (let s = send [AnswerQuery] s;
          docx_blocks = stored_blocks s
      in if docx_blocks = []
         then send [EditMessageText msg_no_data] s
         else
           let (r, tmps) = assemble e docx_blocks (temp_files s);
               s = s\<lparr>temp_files := tmps\<rparr>
           in case r of
                Inl err \<Rightarrow> s
              | Inr doc \<Rightarrow>
                  let s = s\<lparr>files := (files s)(out_path \<mapsto> DocxFile doc)\<rparr>
                  in case files s out_path of
                       None \<Rightarrow> s
                     | Some f \<Rightarrow>
                         send [EditReplyMarkup (Some keyboard_after_download)]
                           (send [SendDocument f (lit ''converted.docx'')] s))"

definition start_over_callback :: "state \<Rightarrow> state" where
  "start_over_callback s =
     (let s = send [AnswerQuery] s;
          s = s\<lparr>user_data := (user_data s)(blocks_key := None)\<rparr>;
          s = send [EditReplyMarkup None] s
      in send [SendMessage msg_send_new None] s)"

section \<open>Vocabulary of the properties\<close>

text \<open>
  An environment for the concrete instances below: no word or space characters beyond
  ASCII, every code point beyond ASCII accepted as XML text, a hash that reads the bytes
  as the digits of a number, and a writer that rejects the empty picture.
\<close>

definition sample_env :: env where
  "sample_env = \<lparr>uni_word = (\<lambda>c. False), uni_space = (\<lambda>c. False),
     py_hash = (\<lambda>b. foldl (\<lambda>h x. h * 257 + ucast x + 1) 0 b),
     picture_ok = (\<lambda>b x. b \<noteq> []), uni_xml = (\<lambda>c. True)\<rparr>"

fun is_send_document :: "action \<Rightarrow> bool" where
  "is_send_document (SendDocument f n) = True"
| "is_send_document a = False"

fun document_name :: "action \<Rightarrow> pystr option" where
  "document_name (SendDocument f n) = Some n"
| "document_name a = None"

text \<open>
  Whether the round of the assembly loop for a block ends without an error, the
  paragraph a block becomes, and the temporary files the image blocks leave.
\<close>

fun add_ok :: "env \<Rightarrow> block \<Rightarrow> bool" where
  "add_ok e (Text t) = xml_compatible e t"
| "add_ok e (Image b x) = True"

fun block_para :: "env \<Rightarrow> block \<Rightarrow> para" where
  "block_para e (Text t) = Paragraph (read_back t) None"
| "block_para e (Image b x) = Paragraph [] (if picture_ok e b x then Some b else None)"

fun image_temp_files :: "block list \<Rightarrow> temp_file list" where
  "image_temp_files [] = []"
| "image_temp_files (Text t # bs) = image_temp_files bs"
| "image_temp_files (Image b x # bs) =
     \<lparr>suffix = lit ''.'' @ x, content = b\<rparr> # image_temp_files bs"

text \<open>
  A one-page PDF named \<^verbatim>\<open>report.pdf\<close> with the text "Hi" and two pictures, the second
  of which the writer rejects, and a conversation in which nothing has happened yet.
\<close>

definition sample_upload :: upload where
  "sample_upload = \<lparr>mime_type = lit ''application/pdf'', file_name = lit ''report.pdf'',
     pdf_pages = [\<lparr>text_result = Returns (Some (lit ''Hi'')),
                   page_images = [\<lparr>image_data = [1], ext = lit ''png''\<rparr>,
                                  \<lparr>image_data = [], ext = lit ''png''\<rparr>]\<rparr>]\<rparr>"

definition empty_state :: state where
  "empty_state = \<lparr>user_data = Map.empty, outbox = [], files = Map.empty, temp_files = []\<rparr>"

text \<open>
  Two one-page PDFs without pictures: the text of the first has a carriage return
  between two letters, the text of the second the control character 1.
\<close>

definition cr_upload :: upload where
  "cr_upload = \<lparr>mime_type = lit ''application/pdf'', file_name = lit ''cr.pdf'',
     pdf_pages = [\<lparr>text_result = Returns (Some [97, 13, 98]), page_images = []\<rparr>]\<rparr>"

definition ctrl_upload :: upload where
  "ctrl_upload = \<lparr>mime_type = lit ''application/pdf'', file_name = lit ''ctrl.pdf'',
     pdf_pages = [\<lparr>text_result = Returns (Some [97, 1, 98]), page_images = []\<rparr>]\<rparr>"

text \<open>
  A one-page PDF with a picture, and a state in which a picture, a text with the control
  character 1 and a second picture are stored.
\<close>

definition ctrl_between_pictures :: state where
  "ctrl_between_pictures =
     \<lparr>user_data = [blocks_key \<mapsto>
        [Image [1] (lit ''png''), Text [97, 1, 98], Image [2] (lit ''gif'')]],
      outbox = [], files = Map.empty, temp_files = []\<rparr>"

text \<open>
  Words for the claims about extraction. \<open>all_images\<close> lists the image occurrences of a
  document in the order the loops visit them, \<open>hashes\<close> is the set of hash values of
  some occurrences. \<open>first_occurrences e before imgs\<close> keeps the occurrences of \<open>imgs\<close>
  whose hash value belongs to no occurrence in \<open>before\<close> and to no earlier occurrence
  in \<open>imgs\<close>. \<open>page_output e pages i\<close> is what page \<open>i\<close> should contribute: its
  text block, if its normalized text is not empty, and then the image blocks of the
  occurrences on the page that are the first with their hash value in the document.
\<close>

definition image_block :: "img_dict \<Rightarrow> block" where
  "image_block x = Image (image_data x) (ext x)"

definition all_images :: "page list \<Rightarrow> img_dict list" where
  "all_images pages = concat (map page_images pages)"

definition hashes :: "env \<Rightarrow> img_dict list \<Rightarrow> 64 word set" where
  "hashes e imgs = (\<lambda>x. py_hash e (image_data x)) ` set imgs"

definition first_occurrences :: "env \<Rightarrow> img_dict list \<Rightarrow> img_dict list \<Rightarrow> img_dict list" where
  "first_occurrences e before imgs =
     map ((!) imgs)
       (filter (\<lambda>j. py_hash e (image_data (imgs ! j)) \<notin> hashes e (before @ take j imgs))
          [0..<length imgs])"

definition page_output :: "env \<Rightarrow> page list \<Rightarrow> nat \<Rightarrow> block list" where
  "page_output e pages i =
     (if page_text e (pages ! i) \<noteq> [] then [Text (page_text e (pages ! i))] else []) @
     map image_block (first_occurrences e (all_images (take i pages)) (page_images (pages ! i)))"

text \<open>
  The same with contents in place of hash values: \<open>first_contents before imgs\<close> keeps
  the occurrences of \<open>imgs\<close> whose content belongs to no occurrence in \<open>before\<close> and
  to no earlier occurrence in \<open>imgs\<close>.
\<close>

definition first_contents :: "img_dict list \<Rightarrow> img_dict list \<Rightarrow> img_dict list" where
  "first_contents before imgs =
     map ((!) imgs)
       (filter (\<lambda>j. image_data (imgs ! j) \<notin> image_data ` set (before @ take j imgs))
          [0..<length imgs])"

definition content_page_output :: "env \<Rightarrow> page list \<Rightarrow> nat \<Rightarrow> block list" where
  "content_page_output e pages i =
     (if page_text e (pages ! i) \<noteq> [] then [Text (page_text e (pages ! i))] else []) @
     map image_block (first_contents (all_images (take i pages)) (page_images (pages ! i)))"

fun is_text :: "block \<Rightarrow> bool" where
  "is_text (Text t) = True"
| "is_text (Image b x) = False"

text \<open>The indices of the pages that have a text block, in page order.\<close>

definition text_page_indices :: "env \<Rightarrow> page list \<Rightarrow> nat list" where
  "text_page_indices e pages =
     filter (\<lambda>i. page_text e (pages ! i) \<noteq> []) [0..<length pages]"

text \<open>Three pages without pictures; the text extraction of the second one raises.\<close>

definition three_pages :: "page list" where
  "three_pages =
     [\<lparr>text_result = Returns (Some (lit ''A'')), page_images = []\<rparr>,
      \<lparr>text_result = Raises, page_images = []\<rparr>,
      \<lparr>text_result = Returns (Some (lit ''B'')), page_images = []\<rparr>]"

text \<open>
  Words for the claim about normalization: a text in which no two spaces are adjacent.
\<close>

fun no_double_space :: "pystr \<Rightarrow> bool" where
  "no_double_space (a # b # rest) = (\<not> (a = space \<and> b = space) \<and> no_double_space (b # rest))"
| "no_double_space s = True"


text \<open>
  Words for the claim about re-reading a document: the text of a paragraph, the text a
  block stands for, the non-empty paragraph texts of a document, and the texts of the
  text blocks of a sequence.
\<close>

fun para_text :: "para \<Rightarrow> pystr" where
  "para_text (Paragraph t p) = t"

fun block_text :: "block \<Rightarrow> pystr" where
  "block_text (Text t) = t"
| "block_text (Image b x) = []"

definition doc_texts :: "document \<Rightarrow> pystr list" where
  "doc_texts d = filter (\<lambda>t. t \<noteq> []) (map para_text d)"

fun block_texts :: "block list \<Rightarrow> pystr list" where
  "block_texts [] = []"
| "block_texts (Text t # bs) = t # block_texts bs"
| "block_texts (Image b x # bs) = block_texts bs"


text \<open>
  Words for the claim about repeated images: a block that is an image with the given
  content; the first occurrence with a given hash value; and whether the first
  occurrence that has the hash value of the content \<open>b\<close> has the content \<open>b\<close> itself.
\<close>

fun has_data :: "bytes \<Rightarrow> block \<Rightarrow> bool" where
  "has_data b (Image d x) = (d = b)"
| "has_data b (Text t) = False"

definition first_with_hash :: "env \<Rightarrow> 64 word \<Rightarrow> img_dict list \<Rightarrow> img_dict option" where
  "first_with_hash e v imgs = find (\<lambda>x. py_hash e (image_data x) = v) imgs"

definition first_of_its_hash :: "env \<Rightarrow> bytes \<Rightarrow> img_dict list \<Rightarrow> bool" where
  "first_of_its_hash e b imgs =
     (map_option image_data (first_with_hash e (py_hash e b) imgs) = Some b)"


text \<open>
  A document of three pages with one picture each; the second and the third page have
  the same picture.
\<close>

definition distinct_hash_pages :: "page list" where
  "distinct_hash_pages =
     [\<lparr>text_result = Returns None, page_images = [\<lparr>image_data = [1], ext = lit ''png''\<rparr>]\<rparr>,
      \<lparr>text_result = Returns None, page_images = [\<lparr>image_data = [2, 3], ext = lit ''png''\<rparr>]\<rparr>,
      \<lparr>text_result = Returns None, page_images = [\<lparr>image_data = [2, 3], ext = lit ''png''\<rparr>]\<rparr>]"

section \<open>The assembly loop in closed form\<close>

lemma add_block_Text:
  "add_block e (d, t) (Text v) =
     (if xml_compatible e v then (Inr (d @ [Paragraph (read_back v) None]), t)
      else (Inl ValueError, t))"
  by (simp add: add_block_def)

lemma add_block_Image:
  "add_block e (d, t) (Image b x) =
     (Inr (d @ [Paragraph [] (if picture_ok e b x then Some b else None)]),
      t @ [\<lparr>suffix = lit ''.'' @ x, content = b\<rparr>])"
  by (simp add: add_block_def)

lemma assemble_loop_eq:
  "assemble_loop e (d, t) bs =
     (if list_all (add_ok e) bs then Inr (d @ map (block_para e) bs) else Inl ValueError,
      t @ image_temp_files (takeWhile (add_ok e) bs))"
proof (induction bs arbitrary: d t)
  case Nil
  show ?case by simp
next
  case (Cons b bs)
  show ?case
  proof (cases b)
    case (Text v)
    then show ?thesis
      by (simp add: add_block_Text Cons.IH)
  next
    case (Image c x)
    then show ?thesis
      by (simp add: add_block_Image Cons.IH)
  qed
qed

lemma assemble_eq:
  "assemble e bs t =
     (if list_all (add_ok e) bs then Inr (map (block_para e) bs) else Inl ValueError,
      t @ image_temp_files (takeWhile (add_ok e) bs))"
  by (simp add: assemble_def assemble_loop_eq)

lemma stored_blocks_outbox [simp]: "stored_blocks (s\<lparr>outbox := x\<rparr>) = stored_blocks s"
  by (simp add: stored_blocks_def)

lemma download_empty:
  "stored_blocks s = [] \<Longrightarrow>
   download_word_callback e s = send [AnswerQuery, EditMessageText msg_no_data] s"
  by (simp add: download_word_callback_def Let_def send_def)

lemma takeWhile_list_all: "list_all P xs \<Longrightarrow> takeWhile P xs = xs"
  by (induction xs) simp_all

lemma download_nonempty:
  "stored_blocks s \<noteq> [] \<Longrightarrow> list_all (add_ok e) (stored_blocks s) \<Longrightarrow>
   download_word_callback e s =
     s\<lparr>outbox := outbox s @ [AnswerQuery,
          SendDocument (DocxFile (map (block_para e) (stored_blocks s))) (lit ''converted.docx''),
          EditReplyMarkup (Some keyboard_after_download)],
       files := (files s)(out_path \<mapsto> DocxFile (map (block_para e) (stored_blocks s))),
       temp_files := temp_files s @ image_temp_files (stored_blocks s)\<rparr>"
  by (simp add: download_word_callback_def Let_def assemble_eq send_def takeWhile_list_all)

lemma download_raises:
  "stored_blocks s \<noteq> [] \<Longrightarrow> \<not> list_all (add_ok e) (stored_blocks s) \<Longrightarrow>
   download_word_callback e s =
     s\<lparr>outbox := outbox s @ [AnswerQuery],
       temp_files := temp_files s @ image_temp_files (takeWhile (add_ok e) (stored_blocks s))\<rparr>"
  by (simp add: download_word_callback_def Let_def assemble_eq send_def)

section \<open>Uploads that are not a PDF\<close>

text \<open>
  C5. When the MIME type of the uploaded document is not \<^verbatim>\<open>application/pdf\<close>, the
  handler sends the processing notice and the rejection message and returns: nothing
  but the list of transport calls changes, so the blocks stored before the event are the
  blocks stored after it.
\<close>

theorem handle_pdf_rejects_non_pdf:
  assumes "mime_type up \<noteq> lit ''application/pdf''"
  shows "handle_pdf e up s =
           s\<lparr>outbox := outbox s @ [ReplyText msg_processing, SendMessage msg_not_pdf None]\<rparr>
       \<and> user_data (handle_pdf e up s) = user_data s"
  using assms by (simp add: handle_pdf_def Let_def send_def)

theorem handle_pdf_rejects_non_pdf_witness:
  "mime_type \<lparr>mime_type = lit ''image/png'', file_name = lit ''a.png'', pdf_pages = []\<rparr>
     \<noteq> lit ''application/pdf''
   \<and> user_data
        (handle_pdf sample_env
           \<lparr>mime_type = lit ''image/png'', file_name = lit ''a.png'', pdf_pages = []\<rparr>
           \<lparr>user_data = [blocks_key \<mapsto> [Text (lit ''old'')]], outbox = [],
            files = Map.empty, temp_files = []\<rparr>)
        blocks_key
      = Some [Text (lit ''old'')]"
  using handle_pdf_rejects_non_pdf
    [of "\<lparr>mime_type = lit ''image/png'', file_name = lit ''a.png'', pdf_pages = []\<rparr>"
        sample_env
        "\<lparr>user_data = [blocks_key \<mapsto> [Text (lit ''old'')]], outbox = [],
          files = Map.empty, temp_files = []\<rparr>"]
  by (simp add: lit_def)

section \<open>The sample upload\<close>

lemma extract_sample:
  "extract_blocks sample_env (pdf_pages sample_upload) =
     [Text (lit ''Hi''), Image [1] (lit ''png''), Image [] (lit ''png'')]"
  by (simp add: extract_blocks_def sample_upload_def page_step_def image_step_def page_text_def
      normalize_text_def strip_def replace_newlines_def lit_def sample_env_def space_char_def
      word_char_def)

lemma stored_sample:
  "stored_blocks (handle_pdf sample_env sample_upload empty_state) =
     [Text (lit ''Hi''), Image [1] (lit ''png''), Image [] (lit ''png'')]"
  by (simp add: handle_pdf_def Let_def send_def stored_blocks_def extract_sample)
     (simp add: sample_upload_def)

section \<open>Download with nothing stored\<close>

lemma stored_blocks_start_over: "stored_blocks (start_over_callback s) = []"
  by (simp add: start_over_callback_def stored_blocks_def Let_def send_def)

lemma outbox_start_over:
  "outbox (start_over_callback s) =
     outbox s @ [AnswerQuery, EditReplyMarkup None, SendMessage msg_send_new None]"
  by (simp add: start_over_callback_def Let_def send_def)

text \<open>
  C6. When the conversation stores no block sequence or an empty one, the download
  action answers the button press, replaces the message text by the "no data" message
  and does nothing else: no document is sent. "Start over" removes the stored
  sequence, so a download right after it takes this branch, whatever was stored before.
\<close>

theorem download_without_blocks:
  "(user_data s blocks_key = None \<or> user_data s blocks_key = Some [] \<longrightarrow>
      download_word_callback e s =
        s\<lparr>outbox := outbox s @ [AnswerQuery, EditMessageText msg_no_data]\<rparr>
      \<and> filter is_send_document (outbox (download_word_callback e s)) =
          filter is_send_document (outbox s))
   \<and> user_data (start_over_callback s) blocks_key = None
   \<and> outbox (download_word_callback e (start_over_callback s)) =
       outbox s @ [AnswerQuery, EditReplyMarkup None, SendMessage msg_send_new None,
                   AnswerQuery, EditMessageText msg_no_data]"
proof (intro conjI impI)
  assume a: "user_data s blocks_key = None \<or> user_data s blocks_key = Some []"
  then have e: "stored_blocks s = []"
    by (auto simp: stored_blocks_def)
  show d: "download_word_callback e s =
        s\<lparr>outbox := outbox s @ [AnswerQuery, EditMessageText msg_no_data]\<rparr>"
    by (simp add: download_empty [OF e] send_def)
  show "filter is_send_document (outbox (download_word_callback e s)) =
          filter is_send_document (outbox s)"
    by (simp add: d)
next
  show "user_data (start_over_callback s) blocks_key = None"
    by (simp add: start_over_callback_def Let_def send_def)
next
  show "outbox (download_word_callback e (start_over_callback s)) =
       outbox s @ [AnswerQuery, EditReplyMarkup None, SendMessage msg_send_new None,
                   AnswerQuery, EditMessageText msg_no_data]"
    by (simp add: download_empty [OF stored_blocks_start_over] send_def outbox_start_over)
qed

theorem download_without_blocks_witness:
  "user_data empty_state blocks_key = None
   \<and> outbox (download_word_callback sample_env empty_state) =
       [AnswerQuery, EditMessageText msg_no_data]
   \<and> outbox (download_word_callback sample_env
        (start_over_callback (handle_pdf sample_env sample_upload empty_state))) =
       outbox (handle_pdf sample_env sample_upload empty_state) @
       [AnswerQuery, EditReplyMarkup None, SendMessage msg_send_new None,
        AnswerQuery, EditMessageText msg_no_data]"
  using download_without_blocks [of empty_state sample_env]
    download_without_blocks [of "handle_pdf sample_env sample_upload empty_state" sample_env]
  by (simp add: empty_state_def)

section \<open>The document that a download sends\<close>

lemma add_ok_sample:
  "list_all (add_ok sample_env) [Text (lit ''Hi''), Image [1] (lit ''png''), Image [] (lit ''png'')]"
  by (simp add: xml_compatible_def xml_char_def lit_def)

text \<open>
  C9. A download whose assembly succeeds (the stored sequence is not empty and no
  paragraph is refused) answers the button press, sends one document under the name
  \<^verbatim>\<open>converted.docx\<close> and narrows the keyboard. After an upload the document sent is
  determined by the blocks extracted from the PDF: the name of the uploaded file occurs
  nowhere in it. In every case, the documents a download sends are named
  \<^verbatim>\<open>converted.docx\<close>, and it sends one exactly when the assembly succeeds.
\<close>

theorem download_attachment_name:
  "(stored_blocks s \<noteq> [] \<and> list_all (add_ok e) (stored_blocks s) \<longrightarrow>
      outbox (download_word_callback e s) =
        outbox s @ [AnswerQuery,
          SendDocument (DocxFile (map (block_para e) (stored_blocks s))) (lit ''converted.docx''),
          EditReplyMarkup (Some keyboard_after_download)])
   \<and> (mime_type up = lit ''application/pdf'' \<and> extract_blocks e (pdf_pages up) \<noteq> [] \<and>
      list_all (add_ok e) (extract_blocks e (pdf_pages up)) \<longrightarrow>
      filter is_send_document
        (drop (length (outbox (handle_pdf e up s)))
           (outbox (download_word_callback e (handle_pdf e up s)))) =
        [SendDocument (DocxFile (map (block_para e) (extract_blocks e (pdf_pages up))))
           (lit ''converted.docx'')])
   \<and> map document_name
        (filter is_send_document
           (drop (length (outbox s)) (outbox (download_word_callback e s)))) =
      (if stored_blocks s \<noteq> [] \<and> list_all (add_ok e) (stored_blocks s)
       then [Some (lit ''converted.docx'')] else [])"
proof (intro conjI impI)
  assume "stored_blocks s \<noteq> [] \<and> list_all (add_ok e) (stored_blocks s)"
  then show "outbox (download_word_callback e s) =
        outbox s @ [AnswerQuery,
          SendDocument (DocxFile (map (block_para e) (stored_blocks s))) (lit ''converted.docx''),
          EditReplyMarkup (Some keyboard_after_download)]"
    by (simp add: download_nonempty)
next
  assume a: "mime_type up = lit ''application/pdf'' \<and> extract_blocks e (pdf_pages up) \<noteq> [] \<and>
      list_all (add_ok e) (extract_blocks e (pdf_pages up))"
  have st: "stored_blocks (handle_pdf e up s) = extract_blocks e (pdf_pages up)"
    using a by (simp add: handle_pdf_def Let_def send_def stored_blocks_def)
  with a have ne: "stored_blocks (handle_pdf e up s) \<noteq> []"
    and ok: "list_all (add_ok e) (stored_blocks (handle_pdf e up s))"
    by simp_all
  show "filter is_send_document
        (drop (length (outbox (handle_pdf e up s)))
           (outbox (download_word_callback e (handle_pdf e up s)))) =
        [SendDocument (DocxFile (map (block_para e) (extract_blocks e (pdf_pages up))))
           (lit ''converted.docx'')]"
    by (simp add: download_nonempty [OF ne ok] st)
next
  show "map document_name
        (filter is_send_document
           (drop (length (outbox s)) (outbox (download_word_callback e s)))) =
      (if stored_blocks s \<noteq> [] \<and> list_all (add_ok e) (stored_blocks s)
       then [Some (lit ''converted.docx'')] else [])"
  proof (cases "stored_blocks s = []")
    case True
    then show ?thesis
      by (simp add: download_empty send_def)
  next
    case False
    then show ?thesis
      by (cases "list_all (add_ok e) (stored_blocks s)")
        (simp_all add: download_nonempty download_raises)
  qed
qed

theorem download_attachment_name_witness:
  "mime_type sample_upload = lit ''application/pdf''
   \<and> file_name sample_upload = lit ''report.pdf''
   \<and> filter is_send_document
        (drop (length (outbox (handle_pdf sample_env sample_upload empty_state)))
           (outbox (download_word_callback sample_env
              (handle_pdf sample_env sample_upload empty_state)))) =
        [SendDocument
           (DocxFile [Paragraph (lit ''Hi'') None, Paragraph [] (Some [1]), Paragraph [] None])
           (lit ''converted.docx'')]"
proof -
  have m: "mime_type sample_upload = lit ''application/pdf''"
    and f: "file_name sample_upload = lit ''report.pdf''"
    by (simp_all add: sample_upload_def)
  have h: "mime_type sample_upload = lit ''application/pdf'' \<and>
      extract_blocks sample_env (pdf_pages sample_upload) \<noteq> [] \<and>
      list_all (add_ok sample_env) (extract_blocks sample_env (pdf_pages sample_upload))"
    by (simp only: m extract_sample add_ok_sample) simp
  have p: "map (block_para sample_env) (extract_blocks sample_env (pdf_pages sample_upload)) =
      [Paragraph (lit ''Hi'') None, Paragraph [] (Some [1]), Paragraph [] None]"
    by (simp add: extract_sample) (simp add: sample_env_def read_back_def lit_def)
  from download_attachment_name [of empty_state sample_env sample_upload,
      THEN conjunct2, THEN conjunct1, rule_format, OF h]
  show ?thesis
    by (simp only: m f p simp_thms)
qed

text \<open>
  C10. The download action leaves \<^verbatim>\<open>user_data\<close> as it was, whether the pictures could
  be embedded or not and whether the assembly raised or not, and a second download
  right after the first makes the same transport calls as the first did, with the same
  document.
\<close>

theorem download_keeps_blocks:
  "user_data (download_word_callback e s) = user_data s
   \<and> drop (length (outbox (download_word_callback e s)))
        (outbox (download_word_callback e (download_word_callback e s))) =
     drop (length (outbox s)) (outbox (download_word_callback e s))"
proof (cases "stored_blocks s = []")
  case True
  then have d: "download_word_callback e s = send [AnswerQuery, EditMessageText msg_no_data] s"
    by (rule download_empty)
  have "stored_blocks (send [AnswerQuery, EditMessageText msg_no_data] s) = []"
    using True by (simp add: send_def)
  then have "download_word_callback e (send [AnswerQuery, EditMessageText msg_no_data] s) =
      send [AnswerQuery, EditMessageText msg_no_data]
        (send [AnswerQuery, EditMessageText msg_no_data] s)"
    by (rule download_empty)
  then show ?thesis
    by (simp add: d send_def)
next
  case False
  show ?thesis
  proof (cases "list_all (add_ok e) (stored_blocks s)")
    case True
    note d = download_nonempty [OF False True]
    have k: "stored_blocks (download_word_callback e s) = stored_blocks s"
      by (simp add: d stored_blocks_def)
    with False True have "stored_blocks (download_word_callback e s) \<noteq> []"
      and "list_all (add_ok e) (stored_blocks (download_word_callback e s))"
      by simp_all
    note d2 = download_nonempty [OF this]
    show ?thesis
      by (simp add: d2 k) (simp add: d)
  next
    case bad: False
    note d = download_raises [OF False bad]
    have k: "stored_blocks (download_word_callback e s) = stored_blocks s"
      by (simp add: d stored_blocks_def)
    with False bad have "stored_blocks (download_word_callback e s) \<noteq> []"
      and "\<not> list_all (add_ok e) (stored_blocks (download_word_callback e s))"
      by simp_all
    note d2 = download_raises [OF this]
    show ?thesis
      by (simp add: d2 k) (simp add: d)
  qed
qed

section \<open>Temporary files\<close>

lemma temp_files_download:
  "temp_files (download_word_callback e s) =
     temp_files s @ image_temp_files (takeWhile (add_ok e) (stored_blocks s))"
proof (cases "stored_blocks s = []")
  case True
  then show ?thesis
    by (simp add: download_empty send_def)
next
  case False
  then show ?thesis
    by (cases "list_all (add_ok e) (stored_blocks s)")
      (simp_all add: download_nonempty download_raises takeWhile_list_all)
qed

text \<open>
  C7, as the code has it. The assembly never removes a temporary file. After a download
  the temporary files are those that existed before, unchanged and in their order,
  followed by one file for each image block the loop reached, holding the image's bytes
  under the suffix made of a dot and its extension. The loop reaches the blocks before
  the first text block that the writer refuses, and all blocks when there is none;
  whether the writer accepted a picture makes no difference.
\<close>

theorem temp_files_remain:
  "temp_files (download_word_callback e s) =
     temp_files s @ image_temp_files (takeWhile (add_ok e) (stored_blocks s))
   \<and> take (length (temp_files s)) (temp_files (download_word_callback e s)) = temp_files s
   \<and> (list_all (add_ok e) (stored_blocks s) \<longrightarrow>
        temp_files (download_word_callback e s) =
          temp_files s @ image_temp_files (stored_blocks s))"
  by (simp add: temp_files_download takeWhile_list_all)

lemma stored_ctrl_between_pictures:
  "stored_blocks ctrl_between_pictures =
     [Image [1] (lit ''png''), Text [97, 1, 98], Image [2] (lit ''gif'')]"
  by (simp add: stored_blocks_def ctrl_between_pictures_def)

theorem temp_files_remain_witness:
  "list_all (add_ok sample_env) (stored_blocks (handle_pdf sample_env sample_upload empty_state))
   \<and> temp_files (download_word_callback sample_env
        (handle_pdf sample_env sample_upload empty_state)) =
     temp_files (handle_pdf sample_env sample_upload empty_state) @
     [\<lparr>suffix = lit ''.png'', content = [1]\<rparr>, \<lparr>suffix = lit ''.png'', content = []\<rparr>]
   \<and> temp_files (download_word_callback sample_env ctrl_between_pictures) =
     [\<lparr>suffix = lit ''.png'', content = [1]\<rparr>]"
  using temp_files_remain [of sample_env "handle_pdf sample_env sample_upload empty_state"]
    temp_files_remain [of sample_env ctrl_between_pictures]
  by (simp add: stored_sample add_ok_sample stored_ctrl_between_pictures)
     (simp add: xml_compatible_def xml_char_def lit_def ctrl_between_pictures_def)

text \<open>
  The claim that no temporary file remains fails on the sample upload: there is no
  temporary file before the download and there are two after it, one of a picture that
  was embedded and one of a picture that the writer rejected.
\<close>

theorem temp_files_deleted_counterexample:
  "temp_files (handle_pdf sample_env sample_upload empty_state) = []
   \<and> temp_files (download_word_callback sample_env
        (handle_pdf sample_env sample_upload empty_state)) =
     [\<lparr>suffix = lit ''.png'', content = [1]\<rparr>, \<lparr>suffix = lit ''.png'', content = []\<rparr>]"
proof -
  have ne: "stored_blocks (handle_pdf sample_env sample_upload empty_state) \<noteq> []"
    by (simp add: stored_sample)
  have ok: "list_all (add_ok sample_env)
      (stored_blocks (handle_pdf sample_env sample_upload empty_state))"
    by (simp only: stored_sample add_ok_sample)
  have t: "temp_files (handle_pdf sample_env sample_upload empty_state) = []"
    by (simp add: handle_pdf_def Let_def send_def empty_state_def)
  show ?thesis
    by (simp add: download_nonempty [OF ne ok] stored_sample t) (simp add: lit_def)
qed


section \<open>Chunks of a long text\<close>

lemma text_chunks_eq:
  "text_chunks s = map (\<lambda>j. take 4096 (drop (j * 4096) s)) [0..<(length s + 4095) div 4096]"
  by (simp add: text_chunks_def range_step_def slice_def comp_def add.commute)

lemma concat_pieces:
  "concat (map (\<lambda>j. take k (drop (j * k) s)) [0..<m]) = take (m * k) s"
proof (induction m)
  case 0
  show ?case by simp
next
  case (Suc m)
  have "take (m * k + k) s = take (m * k) s @ take k (drop (m * k) s)"
    by (rule take_add)
  moreover have "Suc m * k = m * k + k"
    by simp
  ultimately have "take (Suc m * k) s = take (m * k) s @ take k (drop (m * k) s)"
    by metis
  with Suc show ?case
    by (simp del: mult_Suc)
qed

lemma concat_text_chunks: "concat (text_chunks s) = s"
proof -
  have "length s \<le> (length s + 4095) div 4096 * 4096"
    by arith
  then show ?thesis
    by (simp add: text_chunks_eq concat_pieces)
qed

lemma text_chunk_bounds:
  assumes "c \<in> set (text_chunks s)"
  shows "c \<noteq> [] \<and> length c \<le> 4096"
proof -
  from assms obtain j where j: "j < (length s + 4095) div 4096"
    and c: "c = take 4096 (drop (j * 4096) s)"
    by (auto simp: text_chunks_eq)
  from j have "j * 4096 < length s"
    by arith
  with c show ?thesis
    by auto
qed

lemma upt_3: "[0..<3] = [0, 1, 2]"
  by (simp add: upt_rec)

lemma text_chunks_10000:
  assumes "length s = 10000"
  shows "map length (text_chunks s) = [4096, 4096, 1808]"
  using assms by (simp add: text_chunks_eq upt_3)

lemma handle_pdf_outbox:
  "mime_type up = lit ''application/pdf'' \<Longrightarrow>
   outbox (handle_pdf e up s) =
     outbox s @ [ReplyText msg_processing] @
     concat (map deliver_block (extract_blocks e (pdf_pages up))) @
     [SendMessage msg_ready (Some keyboard_after_upload)]"
  by (simp add: handle_pdf_def Let_def send_def)

text \<open>
  C2. A text block is delivered as one message per chunk, in the order of the chunks.
  The chunks are not empty, none is longer than 4096 characters, and put together they
  are the text. A text of 10000 characters gives three chunks, of 4096, 4096 and 1808
  characters. The handler sends the deliveries of the blocks one after the other,
  between the processing notice and the final prompt.
\<close>

theorem text_delivery_chunks:
  "deliver_block (Text s) = map (\<lambda>c. SendMessage c None) (text_chunks s)
   \<and> concat (text_chunks s) = s
   \<and> (\<forall>c \<in> set (text_chunks s). c \<noteq> [] \<and> length c \<le> 4096)
   \<and> (length s = 10000 \<longrightarrow> map length (text_chunks s) = [4096, 4096, 1808])
   \<and> (mime_type up = lit ''application/pdf'' \<longrightarrow>
        outbox (handle_pdf e up st) =
          outbox st @ [ReplyText msg_processing] @
          concat (map deliver_block (extract_blocks e (pdf_pages up))) @
          [SendMessage msg_ready (Some keyboard_after_upload)])"
  using concat_text_chunks [of s] text_chunk_bounds [of _ s] text_chunks_10000 [of s]
    handle_pdf_outbox [of up e st]
  by simp

theorem text_delivery_chunks_witness:
  "length (replicate 10000 (65::nat)) = 10000
   \<and> map length (text_chunks (replicate 10000 65)) = [4096, 4096, 1808]
   \<and> concat (text_chunks (replicate 10000 65)) = replicate 10000 65
   \<and> text_chunks (lit ''abc'') = [lit ''abc'']"
  using text_delivery_chunks [of "replicate 10000 65"]
  by (simp add: text_chunks_eq lit_def)

section \<open>The extraction loops in closed form\<close>

lemma hashes_append: "hashes e (xs @ ys) = hashes e xs \<union> hashes e ys"
  by (simp add: hashes_def image_Un)

lemma first_occurrences_Nil: "first_occurrences e before [] = []"
  by (simp add: first_occurrences_def)

lemma first_occurrences_snoc:
  "first_occurrences e before (xs @ [x]) =
     first_occurrences e before xs @
     (if py_hash e (image_data x) \<notin> hashes e (before @ xs) then [x] else [])"
proof -
  let ?P = "\<lambda>ys j. py_hash e (image_data (ys ! j)) \<notin> hashes e (before @ take j ys)"
  have f: "filter (?P (xs @ [x])) [0..<length xs] = filter (?P xs) [0..<length xs]"
    by (rule filter_cong) (simp_all add: nth_append)
  have m: "map ((!) (xs @ [x])) (filter (?P xs) [0..<length xs]) =
           map ((!) xs) (filter (?P xs) [0..<length xs])"
    by (rule map_cong) (simp_all add: nth_append)
  have l: "map ((!) (xs @ [x])) (filter (?P (xs @ [x])) [length xs]) =
           (if py_hash e (image_data x) \<notin> hashes e (before @ xs) then [x] else [])"
    by simp
  have "first_occurrences e before (xs @ [x]) =
          map ((!) (xs @ [x])) (filter (?P (xs @ [x])) [0..<length xs]) @
          map ((!) (xs @ [x])) (filter (?P (xs @ [x])) [length xs])"
    unfolding first_occurrences_def
    by (simp only: length_append_singleton upt_Suc_append [OF le0] filter_append map_append)
  then show ?thesis
    unfolding f m l by (simp only: first_occurrences_def)
qed

lemma image_step_pair:
  "image_step e (bs, S) x =
     (if py_hash e (image_data x) \<notin> S
      then (bs @ [image_block x], insert (py_hash e (image_data x)) S)
      else (bs, S))"
  by (simp add: image_step_def image_block_def Let_def)

lemma foldl_image_step:
  "foldl (image_step e) (bs, hashes e before) imgs =
     (bs @ map image_block (first_occurrences e before imgs), hashes e (before @ imgs))"
proof (induction imgs rule: rev_induct)
  case Nil
  show ?case by (simp add: first_occurrences_Nil)
next
  case (snoc x xs)
  have h: "hashes e (before @ xs @ [x]) =
           insert (py_hash e (image_data x)) (hashes e (before @ xs))"
    by (simp add: hashes_def)
  have i: "py_hash e (image_data x) \<in> hashes e (before @ xs) \<Longrightarrow>
           insert (py_hash e (image_data x)) (hashes e (before @ xs)) = hashes e (before @ xs)"
    by auto
  show ?case
    by (simp add: snoc.IH image_step_pair first_occurrences_snoc h i)
qed

lemma page_step_pair:
  "page_step e (bs, hashes e before) p =
     (bs @ (if page_text e p \<noteq> [] then [Text (page_text e p)] else []) @
        map image_block (first_occurrences e before (page_images p)),
      hashes e (before @ page_images p))"
  by (simp add: page_step_def Let_def foldl_image_step)

lemma all_images_snoc: "all_images (ps @ [p]) = all_images ps @ page_images p"
  by (simp add: all_images_def)

lemma page_output_snoc_old:
  "i < length ps \<Longrightarrow> page_output e (ps @ [p]) i = page_output e ps i"
  by (simp add: page_output_def nth_append)

lemma page_output_snoc_new:
  "page_output e (ps @ [p]) (length ps) =
     (if page_text e p \<noteq> [] then [Text (page_text e p)] else []) @
     map image_block (first_occurrences e (all_images ps) (page_images p))"
  by (simp add: page_output_def)

lemma foldl_page_step:
  "foldl (page_step e) ([], {}) ps =
     (concat (map (page_output e ps) [0..<length ps]), hashes e (all_images ps))"
proof (induction ps rule: rev_induct)
  case Nil
  show ?case by (simp add: hashes_def all_images_def)
next
  case (snoc p ps)
  have m: "map (page_output e (ps @ [p])) [0..<length ps] = map (page_output e ps) [0..<length ps]"
    by (rule map_cong) (simp_all add: page_output_snoc_old)
  show ?case
    by (simp add: snoc.IH page_step_pair m page_output_snoc_new all_images_snoc)
qed

lemma extract_blocks_by_page:
  "extract_blocks e pages = concat (map (page_output e pages) [0..<length pages])"
  by (simp add: extract_blocks_def foldl_page_step)

section \<open>Text blocks and pages\<close>

lemma concat_map_if:
  "concat (map (\<lambda>i. if P i then [f i] else []) xs) = map f (filter P xs)"
  by (induction xs) simp_all

lemma filter_is_text_image_blocks: "filter is_text (map image_block xs) = []"
  by (induction xs) (simp_all add: image_block_def)

lemma filter_is_text_page_output:
  "filter is_text (page_output e pages i) =
     (if page_text e (pages ! i) \<noteq> [] then [Text (page_text e (pages ! i))] else [])"
  by (simp add: page_output_def filter_is_text_image_blocks)

lemma text_blocks_extract:
  "filter is_text (extract_blocks e pages) =
     map (\<lambda>i. Text (page_text e (pages ! i))) (text_page_indices e pages)"
  by (simp add: extract_blocks_by_page filter_concat comp_def filter_is_text_page_output
      concat_map_if text_page_indices_def)

lemma page_text_Raises: "text_result p = Raises \<Longrightarrow> page_text e p = []"
  by (simp add: page_text_def)

text \<open>
  C4. The text blocks of the extracted sequence, in their order, are the normalized
  texts of the pages whose normalized text is not empty, in page order: the \<open>k\<close>-th
  text block comes from the page with the \<open>k\<close>-th index of \<open>text_page_indices\<close>, and
  these indices increase strictly. So there is at most one text block per page, at most
  as many text blocks as pages, and a page whose text extraction raises or whose text
  normalizes to the empty string has none.
\<close>

theorem text_blocks_per_page:
  "filter is_text (extract_blocks e pages) =
     map (\<lambda>i. Text (page_text e (pages ! i))) (text_page_indices e pages)
   \<and> sorted_wrt (<) (text_page_indices e pages)
   \<and> length (filter is_text (extract_blocks e pages)) \<le> length pages
   \<and> (\<forall>i \<in> set (text_page_indices e pages).
        i < length pages \<and> text_result (pages ! i) \<noteq> Raises \<and> page_text e (pages ! i) \<noteq> [])"
proof (intro conjI ballI)
  show "filter is_text (extract_blocks e pages) =
     map (\<lambda>i. Text (page_text e (pages ! i))) (text_page_indices e pages)"
    by (rule text_blocks_extract)
  show "sorted_wrt (<) (text_page_indices e pages)"
    unfolding text_page_indices_def by (rule sorted_wrt_filter) (rule sorted_wrt_upt)
  have "length (text_page_indices e pages) \<le> length [0..<length pages]"
    unfolding text_page_indices_def by (rule length_filter_le)
  then show "length (filter is_text (extract_blocks e pages)) \<le> length pages"
    by (simp add: text_blocks_extract)
next
  fix i assume i: "i \<in> set (text_page_indices e pages)"
  then show "i < length pages" and n: "page_text e (pages ! i) \<noteq> []"
    by (simp_all add: text_page_indices_def)
  from n show "text_result (pages ! i) \<noteq> Raises"
    using page_text_Raises by blast
qed

lemma page_text_lit_A:
  "page_text e \<lparr>text_result = Returns (Some (lit ''A'')), page_images = []\<rparr> = lit ''A''"
  by (simp add: page_text_def normalize_text_def strip_def replace_newlines_def lit_def
      space_char_def)

lemma page_text_lit_B:
  "page_text e \<lparr>text_result = Returns (Some (lit ''B'')), page_images = []\<rparr> = lit ''B''"
  by (simp add: page_text_def normalize_text_def strip_def replace_newlines_def lit_def
      space_char_def)

lemma text_page_indices_three: "text_page_indices e three_pages = [0, 2]"
  by (simp add: text_page_indices_def three_pages_def upt_3 page_text_lit_A page_text_lit_B
      page_text_Raises) (simp add: lit_def)

theorem text_blocks_per_page_witness:
  "text_page_indices sample_env three_pages = [0, 2]
   \<and> filter is_text (extract_blocks sample_env three_pages) = [Text (lit ''A''), Text (lit ''B'')]
   \<and> text_result (three_pages ! 1) = Raises"
  using text_blocks_per_page [of sample_env three_pages]
  by (simp add: text_page_indices_three) (simp add: three_pages_def page_text_lit_A page_text_lit_B)

section \<open>Normalization of the page text\<close>

lemma normalize_example:
  "normalize_text e (lit ''exam-'' @ [newline] @ lit ''ple'') = lit ''example''"
  by (simp add: normalize_text_def lit_def strip_def replace_newlines_def word_char_def
      space_char_def)

lemma hyphen_not_word: "\<not> word_char e hyphen"
  by (simp add: word_char_def)

lemma join_hyphenated_no_hyphen: "hyphen \<notin> set s \<Longrightarrow> join_hyphenated e s = s"
  by (induction e s rule: join_hyphenated.induct) auto

lemma join_hyphenated_skip:
  "h \<noteq> hyphen \<Longrightarrow> length r \<ge> 2 \<Longrightarrow>
   join_hyphenated e (a # h # r) = a # join_hyphenated e (h # r)"
proof -
  assume h: "h \<noteq> hyphen" and "length r \<ge> 2"
  then obtain n b rest where "r = n # b # rest"
    by (cases r; cases "tl r") auto
  with h show ?thesis by simp
qed

lemma join_two_words:
  assumes "u \<noteq> []" and "v \<noteq> []"
    and "\<forall>c \<in> set u. word_char e c" and "\<forall>c \<in> set v. word_char e c"
  shows "join_hyphenated e (u @ [hyphen, newline] @ v) = u @ v"
  using assms(1,3)
proof (induction u)
  case Nil
  then show ?case by simp
next
  case (Cons a u)
  from assms(2) obtain b v' where v: "v = b # v'"
    by (cases v) auto
  with assms(4) have b: "word_char e b" and v': "hyphen \<notin> set v'"
    using hyphen_not_word by auto
  show ?case
  proof (cases u)
    case Nil
    with Cons.prems b v v' show ?thesis
      by (simp add: join_hyphenated_no_hyphen)
  next
    case (Cons c u')
    with Cons.prems have "c \<noteq> hyphen"
      using hyphen_not_word by auto
    then have "join_hyphenated e (a # c # (u' @ [hyphen, newline] @ v)) =
        a # join_hyphenated e (c # (u' @ [hyphen, newline] @ v))"
      by (rule join_hyphenated_skip) simp
    with Cons Cons.IH Cons.prems show ?thesis
      by simp
  qed
qed


text \<open>
  C3. The pattern of the first substitution takes the word character behind the line
  break into the match, and matches do not overlap. A word character that stands alone
  between two hyphenated line breaks is therefore joined to the word before it and not
  to the word after it: the second hyphen and line break stay, and the line break
  becomes a space.
\<close>

theorem hyphen_join_overlap:
  "join_hyphenated e (lit ''a-'' @ [newline] @ lit ''b-'' @ [newline] @ lit ''c'') =
     lit ''ab-'' @ [newline] @ lit ''c''
   \<and> normalize_text e (lit ''a-'' @ [newline] @ lit ''b-'' @ [newline] @ lit ''c'') =
     lit ''ab- c''
   \<and> extract_blocks e
       [\<lparr>text_result = Returns (Some (lit ''a-'' @ [newline] @ lit ''b-'' @ [newline] @ lit ''c'')),
         page_images = []\<rparr>] =
     [Text (lit ''ab- c'')]"
  by (simp add: normalize_text_def lit_def strip_def replace_newlines_def word_char_def
      space_char_def extract_blocks_def page_step_def page_text_def)


text \<open>
  The other steps do what the claim says: the normalized text has no line break and no
  two adjacent spaces, it neither starts nor ends with a space character, and a page
  whose normalized text is empty adds no text block.
\<close>

lemma set_collapse_spaces: "set (collapse_spaces s) \<subseteq> set s"
proof (induction s rule: collapse_spaces.induct)
  case (1 a b rest)
  show ?case
  proof (cases "a = space \<and> b = space")
    case True
    with 1 have "set (collapse_spaces (dropWhile (\<lambda>c. c = space) rest)) \<subseteq> set rest"
      using set_dropWhileD by fastforce
    with True show ?thesis by auto
  next
    case False
    with 1 show ?thesis by auto
  qed
qed simp_all

lemma set_strip: "set (strip e s) \<subseteq> set s"
  by (auto simp: strip_def dest!: set_dropWhileD)

lemma no_newline_normalized: "newline \<notin> set (normalize_text e s)"
proof -
  have "newline \<notin> set (replace_newlines (join_hyphenated e s))"
    by (auto simp: replace_newlines_def)
  then show ?thesis
    using set_collapse_spaces set_strip unfolding normalize_text_def by blast
qed

lemma collapse_spaces_hd:
  "collapse_spaces s = y # ys \<Longrightarrow> \<exists>r. s = y # r"
  by (induction s rule: collapse_spaces.induct) (auto split: if_splits)

lemma no_double_space_collapse: "no_double_space (collapse_spaces s)"
proof (induction s rule: collapse_spaces.induct)
  case (1 a b rest)
  show ?case
  proof (cases "a = space \<and> b = space")
    case True
    let ?r = "dropWhile (\<lambda>c. c = space) rest"
    from True 1 have ih: "no_double_space (collapse_spaces ?r)"
      by simp
    show ?thesis
    proof (cases "collapse_spaces ?r")
      case Nil
      with True show ?thesis by simp
    next
      case (Cons y ys)
      then obtain r where r: "?r = y # r"
        using collapse_spaces_hd by blast
      then have "y \<noteq> space"
        using hd_dropWhile [of "\<lambda>c. c = space" rest] by auto
      with True ih Cons show ?thesis by simp
    qed
  next
    case False
    with 1 have ih: "no_double_space (collapse_spaces (b # rest))"
      by simp
    from False have c: "collapse_spaces (a # b # rest) = a # collapse_spaces (b # rest)"
      by (simp only: collapse_spaces.simps if_False)
    show ?thesis
    proof (cases "collapse_spaces (b # rest)")
      case Nil
      then show ?thesis by (simp only: c no_double_space.simps)
    next
      case (Cons y ys)
      then have "y = b"
        using collapse_spaces_hd by fastforce
      with False ih Cons show ?thesis
        unfolding c by auto
    qed
  qed
qed simp_all

lemma no_double_space_tl: "no_double_space (a # s) \<Longrightarrow> no_double_space s"
  by (cases s) simp_all

lemma no_double_space_dropWhile: "no_double_space s \<Longrightarrow> no_double_space (dropWhile P s)"
  by (induction s) (auto dest: no_double_space_tl)

lemma no_double_space_Cons:
  "no_double_space (a # s) \<longleftrightarrow>
     no_double_space s \<and> (s = [] \<or> \<not> (a = space \<and> hd s = space))"
  by (cases s) auto

lemma no_double_space_snoc:
  "no_double_space (s @ [a]) \<longleftrightarrow>
     no_double_space s \<and> (s = [] \<or> \<not> (last s = space \<and> a = space))"
proof (induction s)
  case Nil
  show ?case by simp
next
  case (Cons b s)
  show ?case
  proof (cases s)
    case Nil
    then show ?thesis by auto
  next
    case (Cons c r)
    have "no_double_space ((b # s) @ [a]) \<longleftrightarrow>
        no_double_space (s @ [a]) \<and> \<not> (b = space \<and> hd (s @ [a]) = space)"
      using Cons by (simp add: no_double_space_Cons)
    also have "\<dots> \<longleftrightarrow> (no_double_space s \<and> \<not> (last s = space \<and> a = space)) \<and>
        \<not> (b = space \<and> hd s = space)"
      using Cons Cons.IH by simp
    also have "\<dots> \<longleftrightarrow> no_double_space (b # s) \<and> \<not> (last (b # s) = space \<and> a = space)"
      using Cons by (auto simp: no_double_space_Cons)
    finally show ?thesis
      by simp
  qed
qed

lemma no_double_space_rev: "no_double_space (rev s) = no_double_space s"
proof (induction s)
  case Nil
  show ?case by simp
next
  case (Cons a s)
  have "no_double_space (rev (a # s)) \<longleftrightarrow> no_double_space (rev s @ [a])"
    by simp
  also have "\<dots> \<longleftrightarrow>
      no_double_space (rev s) \<and> (rev s = [] \<or> \<not> (last (rev s) = space \<and> a = space))"
    by (rule no_double_space_snoc)
  also have "\<dots> \<longleftrightarrow> no_double_space s \<and> (s = [] \<or> \<not> (a = space \<and> hd s = space))"
    unfolding Cons.IH by (cases s) (auto simp: last_rev)
  also have "\<dots> \<longleftrightarrow> no_double_space (a # s)"
    by (rule no_double_space_Cons [symmetric])
  finally show ?case .
qed

lemma no_double_space_normalized: "no_double_space (normalize_text e s)"
  by (simp add: normalize_text_def strip_def no_double_space_rev no_double_space_dropWhile
      no_double_space_collapse)

lemma strip_trimmed:
  assumes "strip e s \<noteq> []"
  shows "\<not> space_char e (hd (strip e s)) \<and> \<not> space_char e (last (strip e s))"
proof -
  let ?u = "dropWhile (space_char e) s"
  let ?t = "dropWhile (space_char e) (rev ?u)"
  from assms have t: "?t \<noteq> []"
    by (simp add: strip_def)
  have u: "?u \<noteq> []"
  proof
    assume "?u = []"
    then have "?t = []"
      by (simp only: rev.simps dropWhile.simps)
    with t show False
      by simp
  qed
  have "\<not> space_char e (hd ?t)"
    using t by (rule hd_dropWhile)
  then have l: "\<not> space_char e (last (strip e s))"
    using t by (simp add: strip_def last_rev)
  have "rev ?u = takeWhile (space_char e) (rev ?u) @ ?t"
    by simp
  then have "last (rev ?u) = last ?t"
    using t by (metis last_appendR)
  then have "hd (strip e s) = hd ?u"
    using t u by (simp add: strip_def hd_rev last_rev)
  moreover have "\<not> space_char e (hd ?u)"
    using u by (rule hd_dropWhile)
  ultimately show ?thesis
    using l by simp
qed

lemma normalized_trimmed:
  "normalize_text e s \<noteq> [] \<Longrightarrow>
   \<not> space_char e (hd (normalize_text e s)) \<and> \<not> space_char e (last (normalize_text e s))"
  unfolding normalize_text_def by (rule strip_trimmed)

lemma page_step_fold:
  "page_step e (bs, S) p =
     foldl (image_step e)
       (bs @ (if page_text e p \<noteq> [] then [Text (page_text e p)] else []), S) (page_images p)"
  by (simp add: page_step_def Let_def)

lemma text_blocks_image_fold:
  "filter is_text (fst (foldl (image_step e) (bs, S) imgs)) = filter is_text bs"
  by (induction imgs arbitrary: bs S) (simp_all add: image_step_pair image_block_def)

lemma empty_text_no_block:
  "page_text e p = [] \<Longrightarrow> filter is_text (fst (page_step e (bs, S) p)) = filter is_text bs"
  by (simp add: page_step_fold text_blocks_image_fold)


section \<open>Re-reading the assembled document\<close>

lemma para_text_block_para: "para_text (block_para e b) = read_back (block_text b)"
  by (cases b) (simp_all add: read_back_def)

lemma read_back_Nil_iff: "read_back t = [] \<longleftrightarrow> t = []"
  by (simp add: read_back_def)

lemma read_back_no_cr: "13 \<notin> set t \<Longrightarrow> read_back t = t"
  by (induction t) (simp_all add: read_back_def)

lemma text_in_page_output: "Text t \<in> set (page_output e pages i) \<Longrightarrow> t \<noteq> []"
  by (auto simp: page_output_def image_block_def split: if_splits)

lemma extracted_text_nonempty: "Text t \<in> set (extract_blocks e pages) \<Longrightarrow> t \<noteq> []"
  by (auto simp: extract_blocks_by_page dest: text_in_page_output)

lemma doc_texts_block_para:
  "(\<And>t. Text t \<in> set bs \<Longrightarrow> t \<noteq> []) \<Longrightarrow>
   doc_texts (map (block_para e) bs) = map read_back (block_texts bs)"
proof (induction bs rule: block_texts.induct)
  case 1
  show ?case by (simp add: doc_texts_def)
next
  case (2 t bs)
  then have "t \<noteq> []" and "doc_texts (map (block_para e) bs) = map read_back (block_texts bs)"
    by simp_all
  then show ?case by (simp add: doc_texts_def read_back_Nil_iff)
next
  case (3 b x bs)
  then have "doc_texts (map (block_para e) bs) = map read_back (block_texts bs)"
    by simp
  then show ?case by (simp add: doc_texts_def)
qed

lemma read_back_texts_no_cr:
  "list_all (\<lambda>t. 13 \<notin> set t) ts \<Longrightarrow> map read_back ts = ts"
  by (induction ts) (simp_all add: read_back_no_cr)

lemma assemble_raises:
  "\<not> list_all (add_ok e) bs \<Longrightarrow> fst (assemble e bs tmps) = Inl ValueError"
  by (simp add: assemble_eq)

text \<open>
  C8, as the code has it. When the writer refuses no text of the sequence, the assembly
  returns a document with one paragraph per block, in block order. Read back, the
  paragraph of a text block gives the whole text of the block with every carriage
  return turned into a line feed, and the paragraph of an image block gives no text.
  The text blocks of an extracted sequence are not empty, so the non-empty paragraph
  texts of the document are the texts of the text blocks, in their order, read back in
  this way; they are these texts themselves when none of them has a carriage return.
\<close>

theorem paragraphs_round_trip:
  "list_all (add_ok e) bs \<longrightarrow>
     fst (assemble e bs tmps) = Inr (map (block_para e) bs)
     \<and> map para_text (map (block_para e) bs) = map (\<lambda>b. read_back (block_text b)) bs
     \<and> (bs = extract_blocks e' pages \<longrightarrow>
          doc_texts (map (block_para e) bs) = map read_back (block_texts bs))
     \<and> (bs = extract_blocks e' pages \<and> list_all (\<lambda>t. 13 \<notin> set t) (block_texts bs) \<longrightarrow>
          doc_texts (map (block_para e) bs) = block_texts bs)"
proof (intro impI conjI)
  assume "list_all (add_ok e) bs"
  then show "fst (assemble e bs tmps) = Inr (map (block_para e) bs)"
    by (simp add: assemble_eq)
next
  show "map para_text (map (block_para e) bs) = map (\<lambda>b. read_back (block_text b)) bs"
    by (simp add: para_text_block_para)
next
  assume "bs = extract_blocks e' pages"
  then show "doc_texts (map (block_para e) bs) = map read_back (block_texts bs)"
    using doc_texts_block_para extracted_text_nonempty by blast
next
  assume a: "bs = extract_blocks e' pages \<and> list_all (\<lambda>t. 13 \<notin> set t) (block_texts bs)"
  then have d: "doc_texts (map (block_para e) bs) = map read_back (block_texts bs)"
    using doc_texts_block_para extracted_text_nonempty by blast
  from a have "map read_back (block_texts bs) = block_texts bs"
    using read_back_texts_no_cr by blast
  with d show "doc_texts (map (block_para e) bs) = block_texts bs"
    by (rule trans)
qed

lemma extract_cr:
  "extract_blocks sample_env (pdf_pages cr_upload) = [Text [97, 13, 98]]"
  by (simp add: extract_blocks_def cr_upload_def page_step_def page_text_def
      normalize_text_def strip_def replace_newlines_def sample_env_def space_char_def
      word_char_def)

lemma extract_ctrl:
  "extract_blocks sample_env (pdf_pages ctrl_upload) = [Text [97, 1, 98]]"
  by (simp add: extract_blocks_def ctrl_upload_def page_step_def page_text_def
      normalize_text_def strip_def replace_newlines_def sample_env_def space_char_def
      word_char_def)

lemma stored_cr:
  "stored_blocks (handle_pdf sample_env cr_upload empty_state) = [Text [97, 13, 98]]"
  by (simp add: handle_pdf_def Let_def send_def stored_blocks_def extract_cr)
     (simp add: cr_upload_def)

lemma stored_ctrl:
  "stored_blocks (handle_pdf sample_env ctrl_upload empty_state) = [Text [97, 1, 98]]"
  by (simp add: handle_pdf_def Let_def send_def stored_blocks_def extract_ctrl)
     (simp add: ctrl_upload_def)

lemma add_ok_cr: "list_all (add_ok sample_env) [Text [97, 13, 98]]"
  by (simp add: xml_compatible_def xml_char_def)

lemma add_ok_ctrl: "\<not> list_all (add_ok sample_env) [Text [97, 1, 98]]"
  by (simp add: xml_compatible_def xml_char_def)

theorem paragraphs_round_trip_witness:
  "list_all (add_ok sample_env) (extract_blocks sample_env (pdf_pages sample_upload))
   \<and> list_all (\<lambda>t. 13 \<notin> set t)
        (block_texts (extract_blocks sample_env (pdf_pages sample_upload)))
   \<and> doc_texts (map (block_para sample_env)
        (extract_blocks sample_env (pdf_pages sample_upload))) = [lit ''Hi'']
   \<and> block_texts (extract_blocks sample_env (pdf_pages sample_upload)) = [lit ''Hi'']"
proof -
  have ok: "list_all (add_ok sample_env) (extract_blocks sample_env (pdf_pages sample_upload))"
    by (simp only: extract_sample add_ok_sample)
  have t: "block_texts (extract_blocks sample_env (pdf_pages sample_upload)) = [lit ''Hi'']"
    by (simp add: extract_sample)
  have n: "list_all (\<lambda>t. 13 \<notin> set t)
        (block_texts (extract_blocks sample_env (pdf_pages sample_upload)))"
    by (simp add: t lit_def)
  from paragraphs_round_trip [of sample_env "extract_blocks sample_env (pdf_pages sample_upload)"
      "[]" sample_env "pdf_pages sample_upload", rule_format, OF ok]
  have "doc_texts (map (block_para sample_env)
        (extract_blocks sample_env (pdf_pages sample_upload))) =
      block_texts (extract_blocks sample_env (pdf_pages sample_upload))"
    using n by blast
  with ok n t show ?thesis
    by simp
qed

lemma deliver_no_document:
  "filter is_send_document (concat (map deliver_block bs)) = []"
proof (induction bs)
  case Nil
  show ?case by simp
next
  case (Cons b bs)
  have "filter is_send_document (deliver_block b) = []"
    by (cases b) (simp_all add: filter_empty_conv)
  with Cons show ?case by simp
qed

lemma handle_pdf_no_document:
  "filter is_send_document (outbox (handle_pdf e up s)) = filter is_send_document (outbox s)"
  by (simp add: handle_pdf_def Let_def send_def deliver_no_document)

text \<open>
  The claim that re-reading gives the texts of the text blocks for every stored sequence
  fails on two uploads. The normalization keeps a carriage return inside a text; the
  block is stored with it, and the paragraph of the document reads back with a line
  feed in its place. The normalization also keeps the control character 1; the writer
  raises on that text, so the download sends no document at all.
\<close>

theorem paragraphs_round_trip_counterexample:
  "stored_blocks (handle_pdf sample_env cr_upload empty_state) = [Text [97, 13, 98]]
   \<and> fst (assemble sample_env [Text [97, 13, 98]] []) = Inr [Paragraph [97, 10, 98] None]
   \<and> filter is_send_document
        (outbox (download_word_callback sample_env (handle_pdf sample_env cr_upload empty_state))) =
      [SendDocument (DocxFile [Paragraph [97, 10, 98] None]) (lit ''converted.docx'')]
   \<and> stored_blocks (handle_pdf sample_env ctrl_upload empty_state) = [Text [97, 1, 98]]
   \<and> fst (assemble sample_env [Text [97, 1, 98]] []) = Inl ValueError
   \<and> filter is_send_document
        (outbox (download_word_callback sample_env (handle_pdf sample_env ctrl_upload empty_state))) =
      []"
proof -
  have o1: "filter is_send_document (outbox (handle_pdf sample_env cr_upload empty_state)) = []"
    by (simp add: handle_pdf_no_document empty_state_def)
  have o2: "filter is_send_document (outbox (handle_pdf sample_env ctrl_upload empty_state)) = []"
    by (simp add: handle_pdf_no_document empty_state_def)
  have ne1: "stored_blocks (handle_pdf sample_env cr_upload empty_state) \<noteq> []"
    by (simp add: stored_cr)
  have ok1: "list_all (add_ok sample_env)
      (stored_blocks (handle_pdf sample_env cr_upload empty_state))"
    by (simp only: stored_cr add_ok_cr)
  have ne2: "stored_blocks (handle_pdf sample_env ctrl_upload empty_state) \<noteq> []"
    by (simp add: stored_ctrl)
  have bad2: "\<not> list_all (add_ok sample_env)
      (stored_blocks (handle_pdf sample_env ctrl_upload empty_state))"
    unfolding stored_ctrl by (rule add_ok_ctrl)
  have d1: "filter is_send_document
        (outbox (download_word_callback sample_env (handle_pdf sample_env cr_upload empty_state))) =
      [SendDocument (DocxFile [Paragraph [97, 10, 98] None]) (lit ''converted.docx'')]"
    by (simp add: download_nonempty [OF ne1 ok1] o1 stored_cr read_back_def)
  have d2: "filter is_send_document
        (outbox (download_word_callback sample_env (handle_pdf sample_env ctrl_upload empty_state))) =
      []"
    by (simp add: download_raises [OF ne2 bad2] o2)
  have a1: "fst (assemble sample_env [Text [97, 13, 98]] []) = Inr [Paragraph [97, 10, 98] None]"
    by (simp add: assemble_eq add_ok_cr [simplified] read_back_def)
  have a2: "fst (assemble sample_env [Text [97, 1, 98]] []) = Inl ValueError"
    using add_ok_ctrl by (simp add: assemble_eq)
  show ?thesis
    by (simp only: stored_cr stored_ctrl d1 d2 a1 a2 simp_thms)
qed


section \<open>Repeated images\<close>

lemma find_append_cases:
  "find P (xs @ ys) = (case find P xs of None \<Rightarrow> find P ys | Some x \<Rightarrow> Some x)"
  by (induction xs) simp_all

lemma first_with_hash_Cons:
  "first_with_hash e v (x # xs) =
     (if py_hash e (image_data x) = v then Some x else first_with_hash e v xs)"
  by (simp add: first_with_hash_def)

lemma first_with_hash_None:
  "first_with_hash e v imgs = None \<longleftrightarrow> v \<notin> hashes e imgs"
  by (auto simp: first_with_hash_def find_None_iff hashes_def)

lemma count_image_step:
  "length (filter (has_data b) (fst (foldl (image_step e) (bs, S) imgs))) =
     length (filter (has_data b) bs) +
     (if py_hash e b \<notin> S \<and> first_of_its_hash e b imgs then 1 else 0)
   \<and> snd (foldl (image_step e) (bs, S) imgs) = S \<union> hashes e imgs"
proof (induction imgs arbitrary: bs S)
  case Nil
  show ?case by (simp add: hashes_def first_of_its_hash_def first_with_hash_def)
next
  case (Cons x xs)
  show ?case
  proof (cases "py_hash e (image_data x) \<in> S")
    case True
    then have "image_step e (bs, S) x = (bs, S)"
      by (simp add: image_step_pair)
    with True Cons.IH [of bs S] show ?thesis
      by (auto simp: hashes_def first_of_its_hash_def first_with_hash_Cons)
  next
    case False
    then have st: "image_step e (bs, S) x =
        (bs @ [image_block x], insert (py_hash e (image_data x)) S)"
      by (simp add: image_step_pair)
    show ?thesis
    proof (cases "py_hash e (image_data x) = py_hash e b")
      case True
      with False st Cons.IH [of "bs @ [image_block x]" "insert (py_hash e (image_data x)) S"]
      show ?thesis
        by (auto simp: hashes_def image_block_def first_of_its_hash_def first_with_hash_Cons)
    next
      case False
      then have "image_data x \<noteq> b"
        by auto
      with False \<open>py_hash e (image_data x) \<notin> S\<close> st
        Cons.IH [of "bs @ [image_block x]" "insert (py_hash e (image_data x)) S"]
      show ?thesis
        by (auto simp: hashes_def image_block_def first_of_its_hash_def first_with_hash_Cons)
    qed
  qed
qed

lemma all_images_Cons: "all_images (p # ps) = page_images p @ all_images ps"
  by (simp add: all_images_def)

lemma first_of_its_hash_append:
  "first_of_its_hash e b (xs @ ys) =
     (if py_hash e b \<in> hashes e xs then first_of_its_hash e b xs else first_of_its_hash e b ys)"
proof (cases "first_with_hash e (py_hash e b) xs")
  case None
  then show ?thesis
    using first_with_hash_None [of e "py_hash e b" xs]
    by (simp add: first_of_its_hash_def first_with_hash_def find_append_cases)
next
  case (Some x)
  then show ?thesis
    using first_with_hash_None [of e "py_hash e b" xs]
    by (simp add: first_of_its_hash_def first_with_hash_def find_append_cases)
qed

lemma first_of_its_hash_seen:
  "first_of_its_hash e b xs \<Longrightarrow> py_hash e b \<in> hashes e xs"
  using first_with_hash_None [of e "py_hash e b" xs]
  by (auto simp: first_of_its_hash_def)

lemma count_page_step:
  "length (filter (has_data b) (fst (foldl (page_step e) (bs, S) pages))) =
     length (filter (has_data b) bs) +
     (if py_hash e b \<notin> S \<and> first_of_its_hash e b (all_images pages) then 1 else 0)
   \<and> snd (foldl (page_step e) (bs, S) pages) = S \<union> hashes e (all_images pages)"
proof (induction pages arbitrary: bs S)
  case Nil
  show ?case
    by (simp add: hashes_def all_images_def first_of_its_hash_def first_with_hash_def)
next
  case (Cons p ps)
  obtain bs1 S1 where st: "page_step e (bs, S) p = (bs1, S1)"
    by (cases "page_step e (bs, S) p")
  let ?bs0 = "bs @ (if page_text e p \<noteq> [] then [Text (page_text e p)] else [])"
  have c0: "length (filter (has_data b) ?bs0) = length (filter (has_data b) bs)"
    by simp
  from count_image_step [of b e ?bs0 S "page_images p"] st
  have c1: "length (filter (has_data b) bs1) =
      length (filter (has_data b) bs) +
      (if py_hash e b \<notin> S \<and> first_of_its_hash e b (page_images p) then 1 else 0)"
    and s1: "S1 = S \<union> hashes e (page_images p)"
    unfolding page_step_fold c0 by simp_all
  let ?S1 = "S \<union> hashes e (page_images p)"
  from Cons.IH [of bs1 ?S1]
  have c2: "length (filter (has_data b) (fst (foldl (page_step e) (bs1, ?S1) ps))) =
      length (filter (has_data b) bs1) +
      (if py_hash e b \<notin> ?S1 \<and> first_of_its_hash e b (all_images ps) then 1 else 0)"
    and s2: "snd (foldl (page_step e) (bs1, ?S1) ps) = ?S1 \<union> hashes e (all_images ps)"
    by simp_all
  have f: "foldl (page_step e) (bs, S) (p # ps) = foldl (page_step e) (bs1, ?S1) ps"
    using st s1 by simp
  have "snd (foldl (page_step e) (bs1, ?S1) ps) = S \<union> hashes e (all_images (p # ps))"
    unfolding s2 by (simp add: all_images_Cons hashes_append Un_assoc)
  moreover have "length (filter (has_data b) (fst (foldl (page_step e) (bs1, ?S1) ps))) =
           length (filter (has_data b) bs) +
           (if py_hash e b \<notin> S \<and> first_of_its_hash e b (all_images (p # ps)) then 1 else 0)"
    unfolding c2 c1 using first_of_its_hash_seen [of e b "page_images p"]
    by (simp add: all_images_Cons first_of_its_hash_append)
  ultimately show ?case
    unfolding f by simp
qed

lemma count_extract_blocks:
  "length (filter (has_data b) (extract_blocks e pages)) =
     (if first_of_its_hash e b (all_images pages) then 1 else 0)"
  using count_page_step [of b e "[]" "{}" pages]
  by (simp add: extract_blocks_def)

lemma first_of_its_hash_no_collision:
  assumes "b \<in> image_data ` set imgs"
    and "\<forall>x \<in> set imgs. py_hash e (image_data x) = py_hash e b \<longrightarrow> image_data x = b"
  shows "first_of_its_hash e b imgs"
proof (cases "first_with_hash e (py_hash e b) imgs")
  case None
  with assms(1) show ?thesis
    by (auto simp: first_with_hash_None hashes_def)
next
  case (Some x)
  then have "x \<in> set imgs" and "py_hash e (image_data x) = py_hash e b"
    by (auto simp: first_with_hash_def find_Some_iff)
  with assms(2) have "image_data x = b"
    by blast
  with Some show ?thesis
    by (simp add: first_of_its_hash_def)
qed

lemma stored_after_upload:
  "mime_type up = lit ''application/pdf'' \<Longrightarrow>
   stored_blocks (handle_pdf e up s) = extract_blocks e (pdf_pages up)"
  by (simp add: handle_pdf_def Let_def send_def stored_blocks_def)



lemma hash_mem_iff:
  assumes "inj_on (py_hash e) (image_data ` A)" and "x \<in> A" and "set xs \<subseteq> A"
  shows "py_hash e (image_data x) \<in> hashes e xs \<longleftrightarrow> image_data x \<in> image_data ` set xs"
proof -
  have "hashes e xs = py_hash e ` (image_data ` set xs)"
    by (simp add: hashes_def image_image)
  moreover have "image_data x \<in> image_data ` A" and "image_data ` set xs \<subseteq> image_data ` A"
    using assms(2,3) by auto
  ultimately show ?thesis
    using assms(1) by (simp add: inj_on_image_mem_iff)
qed

lemma first_occurrences_by_content:
  assumes "inj_on (py_hash e) (image_data ` A)" and "set before \<subseteq> A" and "set imgs \<subseteq> A"
  shows "first_occurrences e before imgs = first_contents before imgs"
proof -
  have "filter (\<lambda>j. py_hash e (image_data (imgs ! j)) \<notin> hashes e (before @ take j imgs))
          [0..<length imgs] =
        filter (\<lambda>j. image_data (imgs ! j) \<notin> image_data ` set (before @ take j imgs))
          [0..<length imgs]"
  proof (rule filter_cong)
    fix j assume "j \<in> set [0..<length imgs]"
    then have "imgs ! j \<in> A"
      using assms(3) by auto
    moreover have "set (before @ take j imgs) \<subseteq> A"
      using assms(2,3) set_take_subset [of j imgs] by auto
    ultimately show "(py_hash e (image_data (imgs ! j)) \<notin> hashes e (before @ take j imgs)) =
        (image_data (imgs ! j) \<notin> image_data ` set (before @ take j imgs))"
      using hash_mem_iff [OF assms(1)] by blast
  qed simp
  then show ?thesis
    by (simp only: first_occurrences_def first_contents_def)
qed

lemma all_images_take_subset: "set (all_images (take i pages)) \<subseteq> set (all_images pages)"
  using set_take_subset [of i pages] by (auto simp: all_images_def)

lemma page_images_subset:
  assumes "i < length pages"
  shows "set (page_images (pages ! i)) \<subseteq> set (all_images pages)"
proof
  fix x assume x: "x \<in> set (page_images (pages ! i))"
  from assms have "pages ! i \<in> set pages"
    by (rule nth_mem)
  with x have "\<exists>p \<in> set pages. x \<in> set (page_images p)"
    by blast
  then show "x \<in> set (all_images pages)"
    by (simp add: all_images_def)
qed

lemma page_output_by_content:
  assumes "inj_on (py_hash e) (image_data ` set (all_images pages))" and "i < length pages"
  shows "page_output e pages i = content_page_output e pages i"
  using first_occurrences_by_content [OF assms(1) all_images_take_subset
      page_images_subset [OF assms(2)]]
  by (simp add: page_output_def content_page_output_def)

lemma extract_blocks_by_content:
  assumes "inj_on (py_hash e) (image_data ` set (all_images pages))"
  shows "extract_blocks e pages = concat (map (content_page_output e pages) [0..<length pages])"
proof -
  have "map (page_output e pages) [0..<length pages] =
        map (content_page_output e pages) [0..<length pages]"
    by (rule map_cong) (simp_all add: page_output_by_content [OF assms])
  then show ?thesis
    unfolding extract_blocks_by_page by (rule arg_cong)
qed

lemma count_one_without_collision:
  assumes "inj_on (py_hash e) (image_data ` set (all_images pages))"
    and "b \<in> image_data ` set (all_images pages)"
  shows "length (filter (has_data b) (extract_blocks e pages)) = 1"
proof -
  have "\<forall>x \<in> set (all_images pages). py_hash e (image_data x) = py_hash e b \<longrightarrow> image_data x = b"
    using assms by (auto dest: inj_onD)
  with assms(2) have "first_of_its_hash e b (all_images pages)"
    by (rule first_of_its_hash_no_collision)
  then show ?thesis
    by (simp add: count_extract_blocks)
qed

text \<open>
  C1. Images are told apart by the hash value of their bytes, and the specification
  leaves collisions of that hash aside. For a document whose image contents have
  pairwise different hash values, the extracted sequence is the concatenation of the
  outputs of the pages in page order, where a page gives its text block and then, in
  their order on the page, the images whose content occurs neither on an earlier page
  nor earlier on the same page. So every content that occurs in the document, once or
  more often, has exactly one image block, at its first occurrence, and every later
  occurrence is skipped. The set of hash values starts empty in every run: what an
  upload stores depends on the uploaded document only, so uploading the same document
  again stores the same blocks again.
\<close>

theorem image_dedup_first_occurrence:
  assumes "inj_on (py_hash e) (image_data ` set (all_images pages))"
  shows "extract_blocks e pages = concat (map (content_page_output e pages) [0..<length pages])
   \<and> (\<forall>b \<in> image_data ` set (all_images pages).
        length (filter (has_data b) (extract_blocks e pages)) = 1)
   \<and> (mime_type up = lit ''application/pdf'' \<and> pdf_pages up = pages \<longrightarrow>
        stored_blocks (handle_pdf e up s) = extract_blocks e pages
        \<and> stored_blocks (handle_pdf e up (handle_pdf e up s)) = extract_blocks e pages)"
proof (intro conjI ballI impI)
  show "extract_blocks e pages = concat (map (content_page_output e pages) [0..<length pages])"
    using assms by (rule extract_blocks_by_content)
next
  fix b assume "b \<in> image_data ` set (all_images pages)"
  with assms show "length (filter (has_data b) (extract_blocks e pages)) = 1"
    by (rule count_one_without_collision)
next
  assume a: "mime_type up = lit ''application/pdf'' \<and> pdf_pages up = pages"
  then show "stored_blocks (handle_pdf e up s) = extract_blocks e pages"
    using stored_after_upload by blast
  from a show "stored_blocks (handle_pdf e up (handle_pdf e up s)) = extract_blocks e pages"
    using stored_after_upload by blast
qed

lemma inj_distinct_hash:
  "inj_on (py_hash sample_env) (image_data ` set (all_images distinct_hash_pages))"
  by (simp add: all_images_def distinct_hash_pages_def sample_env_def)

lemma extract_distinct_hash:
  "extract_blocks sample_env distinct_hash_pages =
     [Image [1] (lit ''png''), Image [2, 3] (lit ''png'')]"
  by (simp add: extract_blocks_def distinct_hash_pages_def page_step_def image_step_def
      page_text_def normalize_text_def strip_def replace_newlines_def sample_env_def)

theorem image_dedup_first_occurrence_witness:
  "inj_on (py_hash sample_env) (image_data ` set (all_images distinct_hash_pages))
   \<and> map image_data (all_images distinct_hash_pages) = [[1], [2, 3], [2, 3]]
   \<and> length (filter (has_data [2, 3]) (extract_blocks sample_env distinct_hash_pages)) = 1
   \<and> extract_blocks sample_env distinct_hash_pages =
       [Image [1] (lit ''png''), Image [2, 3] (lit ''png'')]
   \<and> map (content_page_output sample_env distinct_hash_pages) [0, 1, 2] =
       [[Image [1] (lit ''png'')], [Image [2, 3] (lit ''png'')], []]"
proof -
  have m: "map image_data (all_images distinct_hash_pages) = [[1], [2, 3], [2, 3]]"
    by (simp add: all_images_def distinct_hash_pages_def)
  then have "[2, 3] \<in> image_data ` set (all_images distinct_hash_pages)"
    by (metis list.set_intros(1,2) set_map)
  with image_dedup_first_occurrence [OF inj_distinct_hash]
  have c: "length (filter (has_data [2, 3]) (extract_blocks sample_env distinct_hash_pages)) = 1"
    by blast
  have p: "map (content_page_output sample_env distinct_hash_pages) [0, 1, 2] =
       [[Image [1] (lit ''png'')], [Image [2, 3] (lit ''png'')], []]"
    by (simp add: content_page_output_def first_contents_def distinct_hash_pages_def
        all_images_def page_text_def normalize_text_def strip_def replace_newlines_def
        image_block_def)
  from inj_distinct_hash m c extract_distinct_hash p show ?thesis
    by blast
qed


text \<open>
  The hypothesis on the hash values is needed: there are more byte strings than 64-bit
  values, so every hash function gives some two contents the same value, and then the
  second content is taken for a repetition of the first.
\<close>

lemma py_hash_collides: "\<exists>a b. a \<noteq> b \<and> py_hash e a = py_hash e b"
proof (rule ccontr)
  assume "\<not> (\<exists>a b. a \<noteq> b \<and> py_hash e a = py_hash e b)"
  then have "inj (py_hash e)"
    by (auto simp: inj_on_def)
  moreover have "finite (range (py_hash e))"
    by simp
  ultimately have "finite (UNIV :: bytes set)"
    by (rule finite_imageD [rotated])
  then show False
    using infinite_UNIV_listI by blast
qed

lemma collision_hides_image:
  "\<exists>a b. a \<noteq> b \<and>
     extract_blocks e
       [\<lparr>text_result = Returns None, page_images = [\<lparr>image_data = a, ext = x\<rparr>]\<rparr>,
        \<lparr>text_result = Returns None, page_images = [\<lparr>image_data = b, ext = x\<rparr>]\<rparr>,
        \<lparr>text_result = Returns None, page_images = [\<lparr>image_data = b, ext = x\<rparr>]\<rparr>] =
     [Image a x]"
proof -
  from py_hash_collides [of e] obtain a b where "a \<noteq> b" and "py_hash e a = py_hash e b"
    by blast
  then have "a \<noteq> b \<and>
     extract_blocks e
       [\<lparr>text_result = Returns None, page_images = [\<lparr>image_data = a, ext = x\<rparr>]\<rparr>,
        \<lparr>text_result = Returns None, page_images = [\<lparr>image_data = b, ext = x\<rparr>]\<rparr>,
        \<lparr>text_result = Returns None, page_images = [\<lparr>image_data = b, ext = x\<rparr>]\<rparr>] =
     [Image a x]"
    by (simp add: extract_blocks_def page_step_def image_step_def page_text_def
        normalize_text_def strip_def replace_newlines_def)
  then show ?thesis
    by blast
qed


end
